theory Spec2Isabelle
  imports Main "HOL-Library.Char_ord" "HOL-Library.List_Lexorder" "HOL-Library.Product_Lexorder"
begin

section \<open>Calendar dates\<close>

text \<open>
  The models use \<^verbatim>\<open>datetime.date\<close> values: they are compared, subtracted
  (\<^verbatim>\<open>(a - b).days\<close>) and shifted by a \<^verbatim>\<open>relativedelta\<close>. A date is its three
  fields; Python compares dates as the tuples \<open>(year, month, day)\<close> and subtracts them
  through their proleptic Gregorian ordinals.
\<close>

record date =
  year :: int
  month :: int
  day :: int

definition date_key :: "date \<Rightarrow> int \<times> int \<times> int" where
  "date_key d = (year d, month d, day d)"

definition date_le :: "date \<Rightarrow> date \<Rightarrow> bool" where
  "date_le a b = (date_key a \<le> date_key b)"

definition date_lt :: "date \<Rightarrow> date \<Rightarrow> bool" where
  "date_lt a b = (date_key a < date_key b)"

definition is_leap :: "int \<Rightarrow> bool" where
  "is_leap y = (y mod 4 = 0 \<and> (y mod 100 \<noteq> 0 \<or> y mod 400 = 0))"

definition DAYS_IN_MONTH :: "int list" where
  "DAYS_IN_MONTH = [-1, 31, 28, 31, 30, 31, 30, 31, 31, 30, 31, 30, 31]"

definition DAYS_BEFORE_MONTH :: "int list" where
  "DAYS_BEFORE_MONTH = [-1, 0, 31, 59, 90, 120, 151, 181, 212, 243, 273, 304, 334]"

definition days_before_year :: "int \<Rightarrow> int" where
  "days_before_year yr = (let y = yr - 1 in y * 365 + y div 4 - y div 100 + y div 400)"

definition days_in_month :: "int \<Rightarrow> int \<Rightarrow> int" where
  "days_in_month y m = (if m = 2 \<and> is_leap y then 29 else DAYS_IN_MONTH ! nat m)"

definition days_before_month :: "int \<Rightarrow> int \<Rightarrow> int" where
  "days_before_month y m = DAYS_BEFORE_MONTH ! nat m + (if m > 2 \<and> is_leap y then 1 else 0)"

definition toordinal :: "date \<Rightarrow> int" where
  "toordinal d = days_before_year (year d) + days_before_month (year d) (month d) + day d"

text \<open>\<^verbatim>\<open>(a - b).days\<close> for two dates.\<close>

definition days_between :: "date \<Rightarrow> date \<Rightarrow> int" where
  "days_between a b = toordinal a - toordinal b"

text \<open>The values the \<^verbatim>\<open>date\<close> constructor accepts (\<^verbatim>\<open>MINYEAR = 1\<close>, \<^verbatim>\<open>MAXYEAR = 9999\<close>).\<close>

definition valid_date :: "date \<Rightarrow> bool" where
  "valid_date d =
     (1 \<le> year d \<and> year d \<le> 9999 \<and> 1 \<le> month d \<and> month d \<le> 12 \<and>
      1 \<le> day d \<and> day d \<le> days_in_month (year d) (month d))"

datatype error = ValueError | TypeError | IntegrityError string

text \<open>
  \<^verbatim>\<open>relativedelta(months=n)\<close> carries one field here, with \<open>n\<close> between -12 and 12 as
  its constructor leaves it. Adding it to a date moves the month, carries into the year,
  clips the day to the length of the target month (\<^verbatim>\<open>calendar.monthrange\<close>) and then
  builds the date, which raises \<^verbatim>\<open>ValueError\<close> outside the years 1 to 9999.
\<close>

record relativedelta =
  months :: int

definition date_add :: "date \<Rightarrow> relativedelta \<Rightarrow> error + date" where
  "date_add dt rd =
     (let y0 = year dt;
          m0 = month dt + months rd;
          (y, m) = (if m0 > 12 then (y0 + 1, m0 - 12)
                    else if m0 < 1 then (y0 - 1, m0 + 12)
                    else (y0, m0));
          d = min (days_in_month y m) (day dt)
      in if 1 \<le> y \<and> y \<le> 9999 then Inr \<lparr>year = y, month = m, day = d\<rparr> else Inl ValueError)"

section \<open>Certificates\<close>

text \<open>The primary key \<^verbatim>\<open>id\<close> is the field \<open>cid\<close>; a foreign key is the id it holds.\<close>

record certificate =
  cid :: int
  name :: string
  number :: string
  issue_date :: date
  valid_until :: "date option"
  authority :: string
  remarks :: string
  supersedes :: "int option"

text \<open>
  \<^verbatim>\<open>Meta.ordering = ("name", F("supersedes").desc(nulls_last=True), "-valid_until")\<close>
  as a sort key: the name ascending, the superseded id descending with the rows that
  supersede nothing last, the end of validity descending. Where a descending
  \<^verbatim>\<open>valid_until\<close> puts its NULLs is left to the database; the key puts them first.
\<close>

definition Certificate_ordering :: "certificate \<Rightarrow> string \<times> (nat \<times> int) \<times> (nat \<times> int \<times> int \<times> int)" where
  "Certificate_ordering c =
     (name c,
      (case supersedes c of Some s \<Rightarrow> (0, - s) | None \<Rightarrow> (1, 0)),
      (case valid_until c of None \<Rightarrow> (0, 0, 0, 0)
       | Some d \<Rightarrow> (1, - year d, - month d, - day d)))"

text \<open>
  The table is the list of its rows; a query returns them in the model's ordering. Rows
  with equal keys come in the order of the table, where the database is free to choose.
\<close>

definition Certificate_objects :: "certificate list \<Rightarrow> certificate list" where
  "Certificate_objects db = sort_key Certificate_ordering db"

text \<open>The reverse relation \<^verbatim>\<open>supersedes_set\<close>: the rows whose \<^verbatim>\<open>supersedes\<close> is this certificate.\<close>

definition supersedes_set :: "certificate list \<Rightarrow> certificate \<Rightarrow> certificate list" where
  "supersedes_set db c = filter (\<lambda>d. supersedes d = Some (cid c)) (Certificate_objects db)"

text \<open>
  \<^verbatim>\<open>Certificate.valid\<close>. The property reads the clock
  (\<^verbatim>\<open>datetime.now(tz=UTC).date()\<close>); the model takes that day as \<open>today\<close>.
\<close>

definition valid :: "date \<Rightarrow> certificate list \<Rightarrow> certificate \<Rightarrow> bool" where
  "valid today db c =
     ((case valid_until c of None \<Rightarrow> True | Some vu \<Rightarrow> date_le today vu)
      \<and> length (supersedes_set db c) = 0)"

text \<open>\<^verbatim>\<open>Certificate.superseded_by\<close>: \<^verbatim>\<open>first()\<close> of the reverse relation.\<close>

definition superseded_by :: "certificate list \<Rightarrow> certificate \<Rightarrow> certificate option" where
  "superseded_by db c = (case supersedes_set db c of [] \<Rightarrow> None | d # _ \<Rightarrow> Some d)"

subsection \<open>Declared constraints\<close>

text \<open>
  \<^verbatim>\<open>Meta.constraints\<close> of \<^verbatim>\<open>Certificate\<close>. A check constraint rejects a row only when
  its condition is false, so a comparison with NULL passes. The unique constraint is
  partial: it covers the rows whose \<^verbatim>\<open>supersedes\<close> is set.
\<close>

definition validity_after_issue :: "certificate \<Rightarrow> bool" where
  "validity_after_issue c =
     (case valid_until c of None \<Rightarrow> True | Some vu \<Rightarrow> date_lt (issue_date c) vu)"

definition supersedes_self :: "certificate \<Rightarrow> bool" where
  "supersedes_self c = (case supersedes c of None \<Rightarrow> True | Some s \<Rightarrow> cid c \<noteq> s)"

definition supersedes_unique :: "certificate list \<Rightarrow> certificate \<Rightarrow> bool" where
  "supersedes_unique others c =
     (case supersedes c of None \<Rightarrow> True
      | Some s \<Rightarrow> list_all (\<lambda>d. supersedes d \<noteq> Some s) others)"

text \<open>The foreign key \<^verbatim>\<open>supersedes\<close> names a row of the table.\<close>

definition supersedes_exists :: "certificate list \<Rightarrow> certificate \<Rightarrow> bool" where
  "supersedes_exists rows c =
     (case supersedes c of None \<Rightarrow> True | Some s \<Rightarrow> s \<in> set (map cid rows))"

text \<open>
  Saving a certificate writes the row under its primary key: a row that has the key is
  replaced where it stands, a new row is added at the end. The write fails with the name
  of the first violated constraint when a declared constraint does not hold of the new
  row against the other rows, or when the row it supersedes is not in the table. Ids are
  unbounded integers here; the range of the id column is the database's.
\<close>

definition Certificate_save :: "certificate list \<Rightarrow> certificate \<Rightarrow> error + certificate list" where
  "Certificate_save db c =
     (let others = filter (\<lambda>d. cid d \<noteq> cid c) db;
          written = (if cid c \<in> set (map cid db)
                     then map (\<lambda>d. if cid d = cid c then c else d) db
                     else db @ [c])
      in if \<not> validity_after_issue c then Inl (IntegrityError ''validity_after_issue'')
         else if \<not> supersedes_self c then Inl (IntegrityError ''supersedes_self'')
         else if \<not> supersedes_unique others c then Inl (IntegrityError ''supersedes_unique'')
         else if \<not> supersedes_exists written c then Inl (IntegrityError ''supersedes'')
         else Inr written)"

section \<open>Expiry messages\<close>

datatype level = WARNING | ERROR

text \<open>
  The two message templates of \<^verbatim>\<open>check_certificates_expiry\<close>, with the values they
  interpolate: the certificate and its \<^verbatim>\<open>valid_until\<close>, or the certificate and the
  number of days left.
\<close>

datatype message_text = has_expired_on certificate "date option" | expires_in_days certificate int

type_synonym message = "level \<times> message_text"

definition EXPIRY_WARNING_THRESHOLD :: relativedelta where
  "EXPIRY_WARNING_THRESHOLD = \<lparr>months = 3\<rparr>"

text \<open>
  The loop over the selected certificates. \<^verbatim>\<open>messages.error\<close> and \<^verbatim>\<open>messages.warning\<close>
  append to the messages of the request. \<open>today\<close> is the day the function read before
  the query. \<^verbatim>\<open>certificate.valid\<close> reads the clock again on every pass: \<open>clock i\<close> is
  the day that read gives on pass \<open>i\<close>, which need not be \<open>today\<close>. Subtracting
  \<open>today\<close> from an absent \<^verbatim>\<open>valid_until\<close> raises \<^verbatim>\<open>TypeError\<close>.
\<close>

fun add_messages :: "date \<Rightarrow> (nat \<Rightarrow> date) \<Rightarrow> nat \<Rightarrow> certificate list \<Rightarrow> certificate list \<Rightarrow> message list \<Rightarrow> error + message list" where
  "add_messages today clock i db [] request = Inr request"
| "add_messages today clock i db (c # cs) request =
     (if \<not> valid (clock i) db c
      then add_messages today clock (Suc i) db cs
             (request @ [(ERROR, has_expired_on c (valid_until c))])
      else (case valid_until c of
              None \<Rightarrow> Inl TypeError
            | Some vu \<Rightarrow>
                add_messages today clock (Suc i) db cs
                  (request @ [(WARNING, expires_in_days c (days_between vu today))])))"

text \<open>
  The query \<^verbatim>\<open>filter(valid_until__lte=limit, supersedes_set=None)\<close>: a NULL
  \<^verbatim>\<open>valid_until\<close> matches no comparison, and \<^verbatim>\<open>supersedes_set=None\<close> keeps the rows
  that no row supersedes.
\<close>

definition expiring :: "date \<Rightarrow> certificate list \<Rightarrow> certificate list" where
  "expiring limit db =
     filter (\<lambda>c. (case valid_until c of None \<Rightarrow> False | Some vu \<Rightarrow> date_le vu limit)
                 \<and> supersedes_set db c = [])
       (Certificate_objects db)"

text \<open>
  \<^verbatim>\<open>check_certificates_expiry\<close> reads the clock once, before the query: that day is
  \<open>today\<close>. The reads that \<^verbatim>\<open>certificate.valid\<close> makes in the loop are \<open>clock\<close>. The
  request is the list of its messages.
\<close>

definition check_certificates_expiry :: "date \<Rightarrow> (nat \<Rightarrow> date) \<Rightarrow> certificate list \<Rightarrow> message list \<Rightarrow> error + message list" where
  "check_certificates_expiry today clock db request =
     (case date_add today EXPIRY_WARNING_THRESHOLD of
        Inl e \<Rightarrow> Inl e
      | Inr limit \<Rightarrow>
          (let certificates = expiring limit db
           in if certificates \<noteq> [] then add_messages today clock 0 db certificates request
              else Inr request))"

text \<open>The certificate a message is about.\<close>

fun subject :: "message \<Rightarrow> certificate" where
  "subject (l, has_expired_on c vu) = c"
| "subject (l, expires_in_days c n) = c"

text \<open>
  The message one pass of the loop adds for a certificate whose \<^verbatim>\<open>valid_until\<close> is
  set (the loop raises on the others unless they are invalid), when the clock gives
  \<open>now\<close> on that pass; and the messages of all the passes over a list of such
  certificates.
\<close>

definition message_for :: "date \<Rightarrow> date \<Rightarrow> certificate list \<Rightarrow> certificate \<Rightarrow> message" where
  "message_for today now db c =
     (if \<not> valid now db c then (ERROR, has_expired_on c (valid_until c))
      else (case valid_until c of
              None \<Rightarrow> (ERROR, has_expired_on c None)
            | Some vu \<Rightarrow> (WARNING, expires_in_days c (days_between vu today))))"

definition messages_from :: "nat \<Rightarrow> date \<Rightarrow> (nat \<Rightarrow> date) \<Rightarrow> certificate list \<Rightarrow> certificate list \<Rightarrow> message list" where
  "messages_from i today clock db cs =
     map (\<lambda>p. message_for today (clock (fst p)) db (snd p)) (enumerate i cs)"

section \<open>Log entries and aircraft\<close>

text \<open>
  A \<^verbatim>\<open>DateTimeField\<close> is an instant on a linear time scale, here an integer; a
  \<^verbatim>\<open>PositiveSmallIntegerField\<close> is a natural number. The primary keys are \<open>lid\<close> and
  \<open>aid\<close>; \<^verbatim>\<open>LogEntry.remarks\<close> is \<open>entry_remarks\<close> and \<^verbatim>\<open>Aircraft.type\<close> is \<open>atype\<close>.
  The speed columns of \<^verbatim>\<open>Aircraft\<close> play no part in what follows and are left out.
\<close>

record log_entry =
  lid :: int
  aircraft :: int
  from_aerodrome :: int
  to_aerodrome :: int
  departure_time :: int
  arrival_time :: int
  landings :: nat
  time_function :: string
  pilot :: int
  copilot :: "int option"
  launch_type :: string
  entry_remarks :: string
  cross_country :: bool
  night :: bool
  slots :: nat

text \<open>\<^verbatim>\<open>Meta.constraints\<close> of \<^verbatim>\<open>LogEntry\<close>, and its two \<^verbatim>\<open>unique=True\<close> columns.\<close>

definition arrival_after_departure :: "log_entry \<Rightarrow> bool" where
  "arrival_after_departure e = (arrival_time e > departure_time e)"

definition copilot_not_pilot :: "log_entry \<Rightarrow> bool" where
  "copilot_not_pilot e = (case copilot e of None \<Rightarrow> True | Some p \<Rightarrow> p \<noteq> pilot e)"

definition no_pic_no_xc :: "log_entry \<Rightarrow> bool" where
  "no_pic_no_xc e =
     (time_function e = ''PIC'' \<or> (time_function e \<noteq> ''PIC'' \<and> cross_country e = False))"

definition departure_time_unique :: "log_entry list \<Rightarrow> log_entry \<Rightarrow> bool" where
  "departure_time_unique others e = list_all (\<lambda>d. departure_time d \<noteq> departure_time e) others"

definition arrival_time_unique :: "log_entry list \<Rightarrow> log_entry \<Rightarrow> bool" where
  "arrival_time_unique others e = list_all (\<lambda>d. arrival_time d \<noteq> arrival_time e) others"

definition LogEntry_save :: "log_entry list \<Rightarrow> log_entry \<Rightarrow> error + log_entry list" where
  "LogEntry_save db e =
     (let others = filter (\<lambda>d. lid d \<noteq> lid e) db
      in if \<not> departure_time_unique others e then Inl (IntegrityError ''departure_time'')
         else if \<not> arrival_time_unique others e then Inl (IntegrityError ''arrival_time'')
         else if \<not> arrival_after_departure e then Inl (IntegrityError ''arrival_after_departure'')
         else if \<not> copilot_not_pilot e then Inl (IntegrityError ''copilot_not_pilot'')
         else if \<not> no_pic_no_xc e then Inl (IntegrityError ''no_pic_no_xc'')
         else Inr (others @ [e]))"

definition LogEntry_delete :: "log_entry list \<Rightarrow> int \<Rightarrow> log_entry list" where
  "LogEntry_delete db k = filter (\<lambda>d. lid d \<noteq> k) db"

text \<open>The tables a sequence of saves and deletes can produce, from the empty table.\<close>

inductive stored :: "log_entry list \<Rightarrow> bool" where
  empty: "stored []"
| save: "stored db \<Longrightarrow> LogEntry_save db e = Inr db' \<Longrightarrow> stored db'"
| delete: "stored db \<Longrightarrow> stored (LogEntry_delete db k)"

text \<open>\<^verbatim>\<open>Meta.ordering = ("-arrival_time",)\<close>\<close>

definition LogEntry_objects :: "log_entry list \<Rightarrow> log_entry list" where
  "LogEntry_objects db = sort_key (\<lambda>e. - arrival_time e) db"

record aircraft_row =
  aid :: int
  atype :: string
  maker :: string
  model :: string
  icao_designator :: string
  registration :: string
  currency_required :: bool
  speed_unit :: string

text \<open>
  \<^verbatim>\<open>Aircraft.currency_status\<close>. The evaluator \<^verbatim>\<open>get_ninety_days_currency\<close> is a
  parameter; \<open>currency_flights\<close> is the query it is called with,
  \<^verbatim>\<open>LogEntry.objects.filter(aircraft=self)\<close>.
\<close>

definition currency_flights :: "log_entry list \<Rightarrow> aircraft_row \<Rightarrow> log_entry list" where
  "currency_flights db a = filter (\<lambda>e. aircraft e = aid a) (LogEntry_objects db)"

definition currency_status :: "(log_entry list \<Rightarrow> 'r) \<Rightarrow> log_entry list \<Rightarrow> aircraft_row \<Rightarrow> 'r option" where
  "currency_status get_ninety_days_currency db a =
     (if currency_required a then Some (get_ninety_days_currency (currency_flights db a))
      else None)"

section \<open>Example data\<close>

abbreviation ymd :: "int \<Rightarrow> int \<Rightarrow> int \<Rightarrow> date" where
  "ymd y m d \<equiv> \<lparr>year = y, month = m, day = d\<rparr>"

definition ex_cert :: "int \<Rightarrow> string \<Rightarrow> date option \<Rightarrow> int option \<Rightarrow> certificate" where
  "ex_cert i n vu s =
     \<lparr>cid = i, name = n, number = [], issue_date = ymd 2020 1 1, valid_until = vu,
      authority = ''LBA'', remarks = [], supersedes = s\<rparr>"

text \<open>A licence renewed once: row 2 supersedes row 1.\<close>

definition licence_old :: certificate where
  "licence_old = ex_cert 1 ''SPL'' (Some (ymd 2024 1 1)) None"

definition licence_new :: certificate where
  "licence_new = ex_cert 2 ''SPL'' (Some (ymd 2024 1 1)) (Some 1)"

definition licences :: "certificate list" where
  "licences = [licence_old, licence_new]"

text \<open>
  Two clocks for the loop: one that gives the same day on every read, and one whose
  first \<open>n\<close> reads give 1 January 2024 and whose later reads give the day after.
\<close>

definition always :: "date \<Rightarrow> nat \<Rightarrow> date" where
  "always d i = d"

definition midnight_after :: "nat \<Rightarrow> nat \<Rightarrow> date" where
  "midnight_after n i = (if i < n then ymd 2024 1 1 else ymd 2024 1 2)"

text \<open>Certificates that nothing supersedes; two of them carry the same name.\<close>

definition medical :: certificate where
  "medical = ex_cert 3 ''Medical'' (Some (ymd 2024 2 1)) None"

definition medical_next :: certificate where
  "medical_next = ex_cert 4 ''Medical'' (Some (ymd 2024 3 1)) None"

definition rating :: certificate where
  "rating = ex_cert 5 ''Rating'' (Some (ymd 2023 12 1)) None"

definition class2 :: certificate where
  "class2 = ex_cert 6 ''Class 2'' (Some (ymd 2024 4 1)) None"

definition expiring_db :: "certificate list" where
  "expiring_db = [medical, rating, medical_next]"

text \<open>Two rows that supersede each other, and a row that supersedes itself.\<close>

definition cycle_a :: certificate where
  "cycle_a = ex_cert 7 ''FI'' None (Some 8)"

definition cycle_b :: certificate where
  "cycle_b = ex_cert 8 ''FI'' None (Some 7)"

definition cycle_db :: "certificate list" where
  "cycle_db = [cycle_a, cycle_b]"

definition self_cert :: certificate where
  "self_cert = ex_cert 9 ''LAPL'' None (Some 9)"

definition ex_flight :: "int \<Rightarrow> int \<Rightarrow> int \<Rightarrow> int \<Rightarrow> int \<Rightarrow> log_entry" where
  "ex_flight i a p dep arr =
     \<lparr>lid = i, aircraft = a, from_aerodrome = 1, to_aerodrome = 1, departure_time = dep,
      arrival_time = arr, landings = 1, time_function = ''PIC'', pilot = p, copilot = None,
      launch_type = ''WINCH'', entry_remarks = [], cross_country = False, night = False,
      slots = 1\<rparr>"

text \<open>Two flights of aircraft 1, by pilots 1 and 2.\<close>

definition flights :: "log_entry list" where
  "flights = [ex_flight 1 1 1 100 200, ex_flight 2 1 2 300 400]"

definition glider :: aircraft_row where
  "glider = \<lparr>aid = 1, atype = ''GLD'', maker = ''Schleicher'', model = ''ASK 21'',
             icao_designator = ''AS21'', registration = ''D-1234'', currency_required = True,
             speed_unit = ''KMH''\<rparr>"

section \<open>Calendar arithmetic\<close>

lemma div_succ:
  fixes y k :: int
  assumes "0 < k"
  shows "(y + 1) div k = y div k + (if (y + 1) mod k = 0 then 1 else 0)"
proof -
  define q where "q = y div k"
  define r where "r = y mod k"
  have r: "0 \<le> r" "r < k" using assms by (simp_all add: r_def)
  have y: "y + 1 = (r + 1) + q * k" by (simp add: q_def r_def)
  have d: "(y + 1) div k = q + (r + 1) div k"
    unfolding y using assms by (simp only: div_mult_self1) 
  have m: "(y + 1) mod k = (r + 1) mod k"
    unfolding y by (simp only: mod_mult_self1)
  show ?thesis
  proof (cases "r + 1 = k")
    case True
    then show ?thesis using assms d m by (simp add: q_def)
  next
    case False
    then have "r + 1 < k" using r by simp
    then have "(r + 1) div k = 0" "(r + 1) mod k = r + 1" using r by simp_all
    then show ?thesis using d m r by (simp add: q_def)
  qed
qed

lemma mod_400_100: "(y::int) mod 400 = 0 \<Longrightarrow> y mod 100 = 0"
proof -
  assume "y mod 400 = 0"
  then have "400 dvd y" by (simp add: mod_eq_0_iff_dvd)
  moreover have "(100::int) dvd 400" by simp
  ultimately have "100 dvd y" by (rule dvd_trans[rotated])
  then show ?thesis by (simp add: mod_eq_0_iff_dvd)
qed

lemma mod_100_4: "(y::int) mod 100 = 0 \<Longrightarrow> y mod 4 = 0"
proof -
  assume "y mod 100 = 0"
  then have "100 dvd y" by (simp add: mod_eq_0_iff_dvd)
  moreover have "(4::int) dvd 100" by simp
  ultimately have "4 dvd y" by (rule dvd_trans[rotated])
  then show ?thesis by (simp add: mod_eq_0_iff_dvd)
qed

lemma days_before_year_Suc:
  "days_before_year (y + 1) = days_before_year y + 365 + (if is_leap y then 1 else 0)"
proof -
  define p4 where "p4 \<longleftrightarrow> y mod 4 = 0"
  define p100 where "p100 \<longleftrightarrow> y mod 100 = 0"
  define p400 where "p400 \<longleftrightarrow> y mod 400 = 0"
  define A where "A = (y - 1) div 4"
  define B where "B = (y - 1) div 100"
  define C where "C = (y - 1) div 400"
  have a: "y div 4 = A + (if p4 then 1 else 0)"
    using div_succ[of 4 "y - 1"] by (simp add: A_def p4_def)
  have b: "y div 100 = B + (if p100 then 1 else 0)"
    using div_succ[of 100 "y - 1"] by (simp add: B_def p100_def)
  have c: "y div 400 = C + (if p400 then 1 else 0)"
    using div_succ[of 400 "y - 1"] by (simp add: C_def p400_def)
  have imp: "p400 \<longrightarrow> p100" "p100 \<longrightarrow> p4"
    using mod_400_100[of y] mod_100_4[of y] by (simp_all add: p4_def p100_def p400_def)
  have leap: "is_leap y \<longleftrightarrow> p4 \<and> (\<not> p100 \<or> p400)"
    by (simp add: is_leap_def p4_def p100_def p400_def)
  have new: "days_before_year (y + 1) = y * 365 + y div 4 - y div 100 + y div 400"
    by (simp add: days_before_year_def)
  have old: "days_before_year y = (y - 1) * 365 + A - B + C"
    by (simp add: days_before_year_def Let_def A_def B_def C_def)
  show ?thesis
    unfolding new old a b c leap using imp
    by (cases p4; cases p100; cases p400; simp)
qed


lemma month_cases:
  assumes "1 \<le> (m::int)" "m \<le> 12"
  obtains "m = 1" | "m = 2" | "m = 3" | "m = 4" | "m = 5" | "m = 6"
        | "m = 7" | "m = 8" | "m = 9" | "m = 10" | "m = 11" | "m = 12"
proof -
  have "m = 1 \<or> m = 2 \<or> m = 3 \<or> m = 4 \<or> m = 5 \<or> m = 6
      \<or> m = 7 \<or> m = 8 \<or> m = 9 \<or> m = 10 \<or> m = 11 \<or> m = 12"
    using assms by arith
  then show thesis using that by blast
qed

lemma days_in_month_simps:
  "days_in_month y 1 = 31" "days_in_month y 2 = (if is_leap y then 29 else 28)"
  "days_in_month y 3 = 31" "days_in_month y 4 = 30" "days_in_month y 5 = 31"
  "days_in_month y 6 = 30" "days_in_month y 7 = 31" "days_in_month y 8 = 31"
  "days_in_month y 9 = 30" "days_in_month y 10 = 31" "days_in_month y 11 = 30"
  "days_in_month y 12 = 31"
  by (simp_all add: days_in_month_def DAYS_IN_MONTH_def eval_nat_numeral)

lemma days_before_month_simps:
  "days_before_month y 1 = 0" "days_before_month y 2 = 31"
  "days_before_month y 3 = 59 + (if is_leap y then 1 else 0)"
  "days_before_month y 4 = 90 + (if is_leap y then 1 else 0)"
  "days_before_month y 5 = 120 + (if is_leap y then 1 else 0)"
  "days_before_month y 6 = 151 + (if is_leap y then 1 else 0)"
  "days_before_month y 7 = 181 + (if is_leap y then 1 else 0)"
  "days_before_month y 8 = 212 + (if is_leap y then 1 else 0)"
  "days_before_month y 9 = 243 + (if is_leap y then 1 else 0)"
  "days_before_month y 10 = 273 + (if is_leap y then 1 else 0)"
  "days_before_month y 11 = 304 + (if is_leap y then 1 else 0)"
  "days_before_month y 12 = 334 + (if is_leap y then 1 else 0)"
  by (simp_all add: days_before_month_def DAYS_BEFORE_MONTH_def eval_nat_numeral)


section \<open>The queries and the message loop\<close>

lemma set_Certificate_objects: "set (Certificate_objects db) = set db"
  by (simp add: Certificate_objects_def)

lemma supersedes_set_empty_iff:
  "supersedes_set db c = [] \<longleftrightarrow> (\<forall>d\<in>set db. supersedes d \<noteq> Some (cid c))"
  by (simp add: supersedes_set_def filter_empty_conv set_Certificate_objects)

lemma set_supersedes_set:
  "set (supersedes_set db c) = {d \<in> set db. supersedes d = Some (cid c)}"
  by (simp add: supersedes_set_def set_Certificate_objects)

lemma valid_iff_aux:
  "valid today db c \<longleftrightarrow>
     (case valid_until c of None \<Rightarrow> True | Some vu \<Rightarrow> date_le today vu)
     \<and> (\<forall>d\<in>set db. supersedes d \<noteq> Some (cid c))"
  by (simp add: valid_def supersedes_set_empty_iff)

lemma add_messages_eq:
  "\<forall>c\<in>set cs. valid_until c \<noteq> None \<Longrightarrow>
   add_messages today clock i db cs request
     = Inr (request @ messages_from i today clock db cs)"
proof (induction cs arbitrary: request i)
  case Nil
  then show ?case by (simp add: messages_from_def)
next
  case (Cons c cs)
  then obtain vu where vu: "valid_until c = Some vu" by auto
  from Cons.prems have rest: "\<forall>c\<in>set cs. valid_until c \<noteq> None" by simp
  show ?case
    by (simp add: Cons.IH[OF rest] message_for_def messages_from_def vu)
qed

lemma expiring_valid_until: "c \<in> set (expiring limit db) \<Longrightarrow> valid_until c \<noteq> None"
  by (auto simp: expiring_def split: option.splits)

lemma set_expiring:
  "set (expiring limit db) =
     {c \<in> set db. (\<exists>vu. valid_until c = Some vu \<and> date_le vu limit)
                  \<and> (\<forall>d\<in>set db. supersedes d \<noteq> Some (cid c))}"
  by (auto simp: expiring_def set_Certificate_objects supersedes_set_empty_iff split: option.splits)

lemma check_certificates_expiry_eq:
  assumes "date_add today EXPIRY_WARNING_THRESHOLD = Inr limit"
  shows "check_certificates_expiry today clock db request =
           Inr (request @ messages_from 0 today clock db (expiring limit db))"
proof (cases "expiring limit db = []")
  case True
  then show ?thesis by (simp add: check_certificates_expiry_def assms messages_from_def)
next
  case False
  have "add_messages today clock 0 db (expiring limit db) request =
          Inr (request @ messages_from 0 today clock db (expiring limit db))"
    by (rule add_messages_eq) (simp add: expiring_valid_until)
  with False show ?thesis by (simp add: check_certificates_expiry_def assms)
qed

lemma check_certificates_expiry_error:
  "date_add today EXPIRY_WARNING_THRESHOLD = Inl e \<Longrightarrow>
   check_certificates_expiry today clock db request = Inl e"
  by (simp add: check_certificates_expiry_def)

lemma subject_message_for: "subject (message_for today now db c) = c"
  by (simp add: message_for_def split: option.splits)

lemma map_subject_messages_from: "map subject (messages_from i today clock db cs) = cs"
proof -
  have "map subject (messages_from i today clock db cs) = map snd (enumerate i cs)"
    by (simp add: messages_from_def comp_def subject_message_for)
  then show ?thesis by simp
qed

lemma length_expiring: "length (expiring limit db) \<le> length db"
proof -
  have "length (expiring limit db) \<le> length (Certificate_objects db)"
    unfolding expiring_def by (rule length_filter_le)
  then show ?thesis by (simp add: Certificate_objects_def)
qed



lemma messages_from_cong:
  assumes "\<forall>j<i + length cs. clock j = clock' j"
  shows "messages_from i today clock db cs = messages_from i today clock' db cs"
  unfolding messages_from_def
proof (rule map_cong[OF refl])
  fix p assume "p \<in> set (enumerate i cs)"
  then have "fst p < i + length cs"
    by (simp add: in_set_enumerate_eq)
  with assms show "message_for today (clock (fst p)) db (snd p)
                   = message_for today (clock' (fst p)) db (snd p)"
    by simp
qed



lemma sorted_map_filter: "sorted (map f xs) \<Longrightarrow> sorted (map f (filter P xs))"
  by (induction xs) auto

lemma check_certificates_expiry_cases:
  assumes "check_certificates_expiry today clock db request = Inr r"
  obtains limit where "date_add today EXPIRY_WARNING_THRESHOLD = Inr limit"
    and "r = request @ messages_from 0 today clock db (expiring limit db)"
proof (cases "date_add today EXPIRY_WARNING_THRESHOLD")
  case (Inl e)
  with assms show ?thesis by (simp add: check_certificates_expiry_error)
next
  case (Inr limit)
  with assms that show ?thesis by (simp add: check_certificates_expiry_eq)
qed

lemma subject_set_messages:
  "subject ` set (messages_from i today clock db cs) = set cs"
proof -
  have "subject ` set (messages_from i today clock db cs)
          = set (map subject (messages_from i today clock db cs))"
    by simp
  then show ?thesis by (simp only: map_subject_messages_from)
qed

lemma three_months:
  assumes v: "valid_date today" and y: "year today < 9999 \<or> month today \<le> 9"
  shows "\<exists>limit. date_add today EXPIRY_WARNING_THRESHOLD = Inr limit \<and>
           89 \<le> days_between limit today \<and> days_between limit today \<le> 92"
proof -
  from v have m: "1 \<le> month today" "month today \<le> 12" by (simp_all add: valid_date_def)
  from v have yr: "1 \<le> year today" "year today \<le> 9999" by (simp_all add: valid_date_def)
  from v have d: "1 \<le> day today" "day today \<le> days_in_month (year today) (month today)"
    by (simp_all add: valid_date_def)
  note defs = date_add_def EXPIRY_WARNING_THRESHOLD_def days_between_def toordinal_def
    days_in_month_simps days_before_month_simps Let_def
  from m show ?thesis
  proof (cases rule: month_cases)
    case 1 with d yr show ?thesis by (auto simp: defs)
  next
    case 2 with d yr show ?thesis by (auto simp: defs)
  next
    case 3 with d yr show ?thesis by (auto simp: defs)
  next
    case 4 with d yr show ?thesis by (auto simp: defs)
  next
    case 5 with d yr show ?thesis by (auto simp: defs)
  next
    case 6 with d yr show ?thesis by (auto simp: defs)
  next
    case 7 with d yr show ?thesis by (auto simp: defs)
  next
    case 8 with d yr show ?thesis by (auto simp: defs)
  next
    case 9 with d yr show ?thesis by (auto simp: defs)
  next
    case 10 with d yr y show ?thesis by (auto simp: defs days_before_year_Suc)
  next
    case 11 with d yr y show ?thesis by (auto simp: defs days_before_year_Suc)
  next
    case 12 with d yr y show ?thesis by (auto simp: defs days_before_year_Suc)
  qed
qed

lemma LogEntry_save_unique:
  assumes "LogEntry_save db e = Inr db'" and "distinct (map f db)"
    and "f = arrival_time \<or> f = departure_time"
  shows "distinct (map f db')"
proof -
  let ?others = "filter (\<lambda>d. lid d \<noteq> lid e) db"
  from assms(1) have db': "db' = ?others @ [e]"
    and u: "departure_time_unique ?others e" "arrival_time_unique ?others e"
    by (auto simp: LogEntry_save_def Let_def split: if_splits)
  from u assms(3) have "f e \<notin> f ` set ?others"
    by (auto simp: departure_time_unique_def arrival_time_unique_def list_all_iff)
  moreover have "distinct (map f ?others)"
    using assms(2) by (rule distinct_map_filter)
  ultimately show ?thesis by (simp add: db')
qed

lemma check_expiring_db:
  "check_certificates_expiry (ymd 2024 1 1) (always (ymd 2024 1 1)) expiring_db []
     = Inr [(WARNING, expires_in_days medical_next 60),
            (WARNING, expires_in_days medical 31),
            (ERROR, has_expired_on rating (Some (ymd 2023 12 1)))]"
  by code_simp

lemma check_licences:
  "check_certificates_expiry (ymd 2024 1 1) (always (ymd 2024 1 1)) licences []
     = Inr [(WARNING, expires_in_days licence_new 0)]"
  by code_simp

lemma check_licences_next_day:
  "check_certificates_expiry (ymd 2024 1 1) (always (ymd 2024 1 2)) licences []
     = Inr [(ERROR, has_expired_on licence_new (Some (ymd 2024 1 1)))]"
  by code_simp



lemmas example_defs = ex_cert_def licence_old_def licence_new_def licences_def medical_def
  medical_next_def rating_def class2_def expiring_db_def cycle_a_def cycle_b_def cycle_db_def
  self_cert_def ex_flight_def flights_def glider_def

section \<open>Validity of a certificate\<close>

text \<open>
  C1. In a table whose rows satisfy the check constraint \<^verbatim>\<open>supersedes_self\<close>, a
  certificate is valid exactly when no other row names it in \<^verbatim>\<open>supersedes\<close> and its
  \<^verbatim>\<open>valid_until\<close> is absent or not before today. So a superseded certificate is
  invalid whatever its \<^verbatim>\<open>valid_until\<close>, and one that ends today is still valid.
\<close>

theorem valid_iff_not_superseded_and_in_date:
  assumes "\<forall>d\<in>set db. supersedes_self d"
  shows "valid today db c \<longleftrightarrow>
           \<not> (\<exists>d\<in>set db. cid d \<noteq> cid c \<and> supersedes d = Some (cid c))
           \<and> (valid_until c = None \<or> (\<exists>vu. valid_until c = Some vu \<and> date_le today vu))"
proof -
  have "(\<exists>d\<in>set db. cid d \<noteq> cid c \<and> supersedes d = Some (cid c))
          \<longleftrightarrow> (\<exists>d\<in>set db. supersedes d = Some (cid c))"
  proof
    assume "\<exists>d\<in>set db. supersedes d = Some (cid c)"
    then obtain d where d: "d \<in> set db" "supersedes d = Some (cid c)" by blast
    with assms have "supersedes_self d" by blast
    with d(2) have "cid d \<noteq> cid c" by (simp add: supersedes_self_def)
    with d show "\<exists>d\<in>set db. cid d \<noteq> cid c \<and> supersedes d = Some (cid c)" by blast
  qed blast
  then show ?thesis
    by (auto simp: valid_iff_aux split: option.splits)
qed

theorem valid_iff_not_superseded_and_in_date_witness:
  "list_all supersedes_self licences
   \<and> (valid (ymd 2024 1 1) licences licence_new \<longleftrightarrow>
        \<not> (\<exists>d\<in>set licences. cid d \<noteq> cid licence_new \<and> supersedes d = Some (cid licence_new))
        \<and> (valid_until licence_new = None
           \<or> (\<exists>vu. valid_until licence_new = Some vu \<and> date_le (ymd 2024 1 1) vu)))"
proof
  show "list_all supersedes_self licences"
    by (simp add: licences_def licence_old_def licence_new_def ex_cert_def supersedes_self_def)
  then have h: "\<forall>d\<in>set licences. supersedes_self d"
    by (simp add: list_all_iff)
  show "valid (ymd 2024 1 1) licences licence_new \<longleftrightarrow>
        \<not> (\<exists>d\<in>set licences. cid d \<noteq> cid licence_new \<and> supersedes d = Some (cid licence_new))
        \<and> (valid_until licence_new = None
           \<or> (\<exists>vu. valid_until licence_new = Some vu \<and> date_le (ymd 2024 1 1) vu))"
    by (rule valid_iff_not_superseded_and_in_date[OF h])
qed

section \<open>Expiry messages for one certificate\<close>




section \<open>The single reverse lookup\<close>

text \<open>
  C3, as the code has it. \<^verbatim>\<open>superseded_by\<close> makes one reverse lookup and follows no
  further link: it is \<open>None\<close> exactly when no row supersedes the certificate, and
  otherwise a row of the table that supersedes it. It walks no chain, detects no cycle
  and has no error result.
\<close>

theorem superseded_by_single_lookup:
  "(superseded_by db c = None \<longleftrightarrow> \<not> (\<exists>d\<in>set db. supersedes d = Some (cid c)))
   \<and> (\<forall>d. superseded_by db c = Some d \<longrightarrow> d \<in> set db \<and> supersedes d = Some (cid c))"
proof (cases "supersedes_set db c")
  case Nil
  then show ?thesis
    using supersedes_set_empty_iff[of db c] by (simp add: superseded_by_def)
next
  case (Cons d ds)
  then have "d \<in> set (supersedes_set db c)" by simp
  then have "d \<in> set db \<and> supersedes d = Some (cid c)" by (simp add: set_supersedes_set)
  with Cons show ?thesis by (auto simp: superseded_by_def)
qed

theorem superseded_by_single_lookup_witness:
  "superseded_by licences licence_old = Some licence_new
   \<and> licence_new \<in> set licences \<and> supersedes licence_new = Some (cid licence_old)"
proof -
  have e: "superseded_by licences licence_old = Some licence_new" by code_simp
  from superseded_by_single_lookup[of licences licence_old] e
  have "licence_new \<in> set licences \<and> supersedes licence_new = Some (cid licence_old)"
    by blast
  with e show ?thesis by simp
qed

text \<open>
  Two rows that supersede each other can be stored: the third save closes the cycle and
  passes every constraint. On that table \<^verbatim>\<open>superseded_by\<close> answers with the other row
  each time, so following the links never ends and nothing is raised.
\<close>

theorem superseded_by_cycle_counterexample:
  "Certificate_save [] (cycle_a\<lparr>supersedes := None\<rparr>) = Inr [cycle_a\<lparr>supersedes := None\<rparr>]
   \<and> Certificate_save [cycle_a\<lparr>supersedes := None\<rparr>] cycle_b
       = Inr [cycle_a\<lparr>supersedes := None\<rparr>, cycle_b]
   \<and> Certificate_save [cycle_a\<lparr>supersedes := None\<rparr>, cycle_b] cycle_a = Inr cycle_db
   \<and> superseded_by cycle_db cycle_a = Some cycle_b
   \<and> superseded_by cycle_db cycle_b = Some cycle_a"
  by code_simp

section \<open>Self-supersession\<close>

text \<open>
  C4, as the code has it. A certificate whose \<^verbatim>\<open>supersedes\<close> is its own id is rejected
  when it is saved, by a declared constraint of the table. \<^verbatim>\<open>valid\<close> and
  \<^verbatim>\<open>superseded_by\<close> validate nothing and never read the \<^verbatim>\<open>supersedes\<close> of the
  certificate they are asked about: for such a certificate they return what they return
  for the same certificate with \<^verbatim>\<open>supersedes\<close> unset.
\<close>

theorem self_supersession_rejected_on_save:
  assumes "supersedes c = Some (cid c)"
  shows "(\<exists>n. Certificate_save db c = Inl (IntegrityError n))
         \<and> valid today db' c = valid today db' (c\<lparr>supersedes := None\<rparr>)
         \<and> superseded_by db' c = superseded_by db' (c\<lparr>supersedes := None\<rparr>)"
proof -
  have "\<not> supersedes_self c" using assms by (simp add: supersedes_self_def)
  then have "\<exists>n. Certificate_save db c = Inl (IntegrityError n)"
    by (cases "validity_after_issue c") (simp_all add: Certificate_save_def Let_def)
  moreover have "valid today db' c = valid today db' (c\<lparr>supersedes := None\<rparr>)"
    by (simp add: valid_def supersedes_set_def)
  moreover have "superseded_by db' c = superseded_by db' (c\<lparr>supersedes := None\<rparr>)"
    by (simp add: superseded_by_def supersedes_set_def)
  ultimately show ?thesis by blast
qed

theorem self_supersession_rejected_on_save_witness:
  "supersedes self_cert = Some (cid self_cert)
   \<and> (\<exists>n. Certificate_save licences self_cert = Inl (IntegrityError n))
   \<and> valid (ymd 2024 1 1) licences self_cert
       = valid (ymd 2024 1 1) licences (self_cert\<lparr>supersedes := None\<rparr>)
   \<and> superseded_by licences self_cert
       = superseded_by licences (self_cert\<lparr>supersedes := None\<rparr>)"
proof -
  have h: "supersedes self_cert = Some (cid self_cert)" by (simp add: example_defs)
  note self_supersession_rejected_on_save[OF h, of licences "ymd 2024 1 1" licences]
  with h show ?thesis by blast
qed

text \<open>
  The table of the two licences is stored by two saves. Asked about a certificate that
  supersedes itself and is not in the table, \<^verbatim>\<open>valid\<close> answers that it is valid and
  \<^verbatim>\<open>superseded_by\<close> that nothing supersedes it; nothing is raised.
\<close>

theorem self_supersession_counterexample:
  "Certificate_save [] licence_old = Inr [licence_old]
   \<and> Certificate_save [licence_old] licence_new = Inr licences
   \<and> supersedes self_cert = Some (cid self_cert)
   \<and> valid (ymd 2024 1 1) licences self_cert = True
   \<and> superseded_by licences self_cert = None"
  by code_simp

section \<open>The flights the currency evaluator receives\<close>

text \<open>
  C5, as the code has it. When currency is required, the evaluator is called with the
  log entries of the aircraft, whoever the pilot was: exactly the rows of the table whose
  aircraft is this one, latest arrival first.
\<close>

theorem currency_flights_of_aircraft:
  "currency_status g db a
     = (if currency_required a then Some (g (currency_flights db a)) else None)
   \<and> set (currency_flights db a) = {e \<in> set db. aircraft e = aid a}
   \<and> sorted (map (\<lambda>e. - arrival_time e) (currency_flights db a))"
proof -
  have "sorted (map (\<lambda>e. - arrival_time e) (currency_flights db a))"
    unfolding currency_flights_def LogEntry_objects_def
    by (rule sorted_map_filter) (rule sorted_sort_key)
  then show ?thesis
    by (auto simp: currency_status_def currency_flights_def LogEntry_objects_def)
qed

theorem currency_flights_of_aircraft_witness:
  "currency_status (map pilot) flights glider
     = (if currency_required glider then Some (map pilot (currency_flights flights glider))
        else None)
   \<and> set (currency_flights flights glider) = {e \<in> set flights. aircraft e = aid glider}
   \<and> sorted (map (\<lambda>e. - arrival_time e) (currency_flights flights glider))"
  by (rule currency_flights_of_aircraft)

text \<open>
  With the evaluator replaced by the function that lists the pilots of its input: the
  input for aircraft 1 holds the flights of pilot 2 and of pilot 1.
\<close>

theorem currency_flights_counterexample:
  "currency_status (map pilot) flights glider = Some [2, 1]"
  by code_simp

section \<open>The warning threshold\<close>

text \<open>
  C6, as the code has it. The threshold is the constant \<^verbatim>\<open>EXPIRY_WARNING_THRESHOLD\<close>,
  three calendar months: for a valid day before October 9999 the limit
  \<^verbatim>\<open>today + EXPIRY_WARNING_THRESHOLD\<close> exists and lies 89 to 92 days after today, and
  the messages are about exactly the certificates that nothing supersedes and whose
  \<^verbatim>\<open>valid_until\<close> is set and not after that limit.
\<close>

theorem expiry_horizon_is_three_months:
  assumes "valid_date today" and "year today < 9999 \<or> month today \<le> 9"
  shows "\<exists>limit out.
           date_add today EXPIRY_WARNING_THRESHOLD = Inr limit
           \<and> 89 \<le> days_between limit today \<and> days_between limit today \<le> 92
           \<and> check_certificates_expiry today clock db request = Inr (request @ out)
           \<and> subject ` set out =
               {c \<in> set db. \<not> (\<exists>d\<in>set db. supersedes d = Some (cid c))
                            \<and> (\<exists>vu. valid_until c = Some vu \<and> date_le vu limit)}"
proof -
  from three_months[OF assms] obtain limit where
    l: "date_add today EXPIRY_WARNING_THRESHOLD = Inr limit"
    and b: "89 \<le> days_between limit today" "days_between limit today \<le> 92"
    by blast
  let ?out = "messages_from 0 today clock db (expiring limit db)"
  have "check_certificates_expiry today clock db request = Inr (request @ ?out)"
    using l by (rule check_certificates_expiry_eq)
  moreover have "subject ` set ?out =
      {c \<in> set db. \<not> (\<exists>d\<in>set db. supersedes d = Some (cid c))
                   \<and> (\<exists>vu. valid_until c = Some vu \<and> date_le vu limit)}"
    unfolding subject_set_messages by (auto simp: set_expiring)
  ultimately show ?thesis using l b by blast
qed

theorem expiry_horizon_is_three_months_witness:
  "valid_date (ymd 2024 1 1)
   \<and> (year (ymd 2024 1 1) < 9999 \<or> month (ymd 2024 1 1) \<le> 9)
   \<and> (\<exists>limit out.
           date_add (ymd 2024 1 1) EXPIRY_WARNING_THRESHOLD = Inr limit
           \<and> 89 \<le> days_between limit (ymd 2024 1 1)
           \<and> days_between limit (ymd 2024 1 1) \<le> 92
           \<and> check_certificates_expiry (ymd 2024 1 1) (always (ymd 2024 1 1)) [class2] []
               = Inr ([] @ out)
           \<and> subject ` set out =
               {c \<in> set [class2]. \<not> (\<exists>d\<in>set [class2]. supersedes d = Some (cid c))
                            \<and> (\<exists>vu. valid_until c = Some vu \<and> date_le vu limit)})"
proof -
  have h1: "valid_date (ymd 2024 1 1)"
    by (simp add: valid_date_def days_in_month_simps)
  have h2: "year (ymd 2024 1 1) < 9999 \<or> month (ymd 2024 1 1) \<le> 9" by simp
  note expiry_horizon_is_three_months[OF h1 h2, of "always (ymd 2024 1 1)" "[class2]" "[]"]
  with h1 h2 show ?thesis by blast
qed

text \<open>
  On 1 January 2024 a certificate that ends on 1 April 2024, 91 days later, gets a
  warning: the threshold is not 90 days.
\<close>

theorem expiry_horizon_counterexample:
  "check_certificates_expiry (ymd 2024 1 1) (always (ymd 2024 1 1)) [class2] []
     = Inr [(WARNING, expires_in_days class2 91)]
   \<and> valid_until class2 = Some (ymd 2024 4 1)
   \<and> days_between (ymd 2024 4 1) (ymd 2024 1 1) = 91"
  by code_simp

section \<open>The order of the messages\<close>

text \<open>
  C7, as the code has it. The messages come in the order of the query, which is the
  ordering of the \<^verbatim>\<open>Certificate\<close> model: by name, then by the superseded id descending
  with NULLs last, then by \<^verbatim>\<open>valid_until\<close> descending. The level of a message plays no
  part in the order.
\<close>

theorem notices_follow_certificate_ordering:
  assumes "check_certificates_expiry today clock db request = Inr (request @ out)"
  shows "sorted (map (\<lambda>m. Certificate_ordering (subject m)) out)"
proof -
  from assms obtain limit where
    "request @ out = request @ messages_from 0 today clock db (expiring limit db)"
    by (rule check_certificates_expiry_cases)
  then have "map subject out = expiring limit db"
    by (simp add: map_subject_messages_from)
  moreover have "map (\<lambda>m. Certificate_ordering (subject m)) out
                   = map Certificate_ordering (map subject out)"
    by (simp add: comp_def)
  ultimately have "map (\<lambda>m. Certificate_ordering (subject m)) out
                     = map Certificate_ordering (expiring limit db)"
    by simp
  moreover have "sorted (map Certificate_ordering (expiring limit db))"
    unfolding expiring_def Certificate_objects_def
    by (rule sorted_map_filter) (rule sorted_sort_key)
  ultimately show ?thesis by simp
qed

theorem notices_follow_certificate_ordering_witness:
  "check_certificates_expiry (ymd 2024 1 1) (always (ymd 2024 1 1)) expiring_db []
     = Inr ([] @ [(WARNING, expires_in_days medical_next 60),
                  (WARNING, expires_in_days medical 31),
                  (ERROR, has_expired_on rating (Some (ymd 2023 12 1)))])
   \<and> sorted (map (\<lambda>m. Certificate_ordering (subject m))
        [(WARNING, expires_in_days medical_next 60),
         (WARNING, expires_in_days medical 31),
         (ERROR, has_expired_on rating (Some (ymd 2023 12 1)))])"
proof -
  have h: "check_certificates_expiry (ymd 2024 1 1) (always (ymd 2024 1 1)) expiring_db []
     = Inr ([] @ [(WARNING, expires_in_days medical_next 60),
                  (WARNING, expires_in_days medical 31),
                  (ERROR, has_expired_on rating (Some (ymd 2023 12 1)))])"
    using check_expiring_db by simp
  from h notices_follow_certificate_ordering[OF h] show ?thesis by (rule conjI)
qed

text \<open>
  On 1 January 2024 the two warnings come before the error, and the warning for the
  later \<^verbatim>\<open>valid_until\<close> comes first.
\<close>

theorem notices_order_counterexample:
  "check_certificates_expiry (ymd 2024 1 1) (always (ymd 2024 1 1)) expiring_db []
     = Inr [(WARNING, expires_in_days medical_next 60),
            (WARNING, expires_in_days medical 31),
            (ERROR, has_expired_on rating (Some (ymd 2023 12 1)))]
   \<and> valid_until medical_next = Some (ymd 2024 3 1)
   \<and> valid_until medical = Some (ymd 2024 2 1)"
  using check_expiring_db by (simp add: example_defs)

section \<open>Certificates without a message\<close>

text \<open>
  C8. A certificate that some row supersedes, and a certificate without
  \<^verbatim>\<open>valid_until\<close>, is the subject of no message, whatever the day.
\<close>

theorem no_notice_when_superseded_or_open_ended:
  assumes "(\<exists>d\<in>set db. supersedes d = Some (cid c)) \<or> valid_until c = None"
    and "check_certificates_expiry today clock db request = Inr (request @ out)"
  shows "c \<notin> subject ` set out"
proof -
  from assms(2) obtain limit where
    "request @ out = request @ messages_from 0 today clock db (expiring limit db)"
    by (rule check_certificates_expiry_cases)
  then have "subject ` set out = set (expiring limit db)"
    by (simp add: subject_set_messages del: set_map)
  with assms(1) show ?thesis by (auto simp: set_expiring)
qed

theorem no_notice_when_superseded_or_open_ended_witness:
  "((\<exists>d\<in>set licences. supersedes d = Some (cid licence_old)) \<or> valid_until licence_old = None)
   \<and> check_certificates_expiry (ymd 2024 1 1) (always (ymd 2024 1 1)) licences []
        = Inr ([] @ [(WARNING, expires_in_days licence_new 0)])
   \<and> licence_old \<notin> subject ` set [(WARNING, expires_in_days licence_new 0)]"
proof -
  have h1: "(\<exists>d\<in>set licences. supersedes d = Some (cid licence_old))
            \<or> valid_until licence_old = None"
    by (simp add: example_defs)
  have h2: "check_certificates_expiry (ymd 2024 1 1) (always (ymd 2024 1 1)) licences []
              = Inr ([] @ [(WARNING, expires_in_days licence_new 0)])"
    using check_licences by simp
  from h1 h2 no_notice_when_superseded_or_open_ended[OF h1 h2] show ?thesis by blast
qed

section \<open>What the messages depend on\<close>

text \<open>
  C9, as the code has it. The functions read the clock themselves:
  \<^verbatim>\<open>check_certificates_expiry\<close> once before the query, and \<^verbatim>\<open>valid\<close> once more for
  every selected certificate. Two runs on the same table with the same day before the
  query add the same messages, or fail with the same error, when the reads in the loop
  are the same in both runs, one read for each row of the table at most; later reads
  and the messages the request already holds do not matter.
\<close>

theorem notices_determined_by_table_and_clock_reads:
  assumes "\<forall>i<length db. clock i = clock' i"
  shows "(\<exists>e. check_certificates_expiry today clock db request = Inl e
              \<and> check_certificates_expiry today clock' db request' = Inl e)
         \<or> (\<exists>out. check_certificates_expiry today clock db request = Inr (request @ out)
                \<and> check_certificates_expiry today clock' db request' = Inr (request' @ out))"
proof (cases "date_add today EXPIRY_WARNING_THRESHOLD")
  case (Inl e)
  then show ?thesis by (simp add: check_certificates_expiry_error)
next
  case (Inr limit)
  let ?cs = "expiring limit db"
  from assms have "\<forall>j<0 + length ?cs. clock j = clock' j"
    using length_expiring[of limit db] by simp
  then have "messages_from 0 today clock db ?cs = messages_from 0 today clock' db ?cs"
    by (rule messages_from_cong)
  with Inr show ?thesis by (simp add: check_certificates_expiry_eq)
qed

theorem notices_determined_by_table_and_clock_reads_witness:
  "list_all (\<lambda>i. always (ymd 2024 1 1) i = midnight_after 2 i) [0..<length licences]
   \<and> ((\<exists>e. check_certificates_expiry (ymd 2024 1 1) (always (ymd 2024 1 1)) licences [] = Inl e
           \<and> check_certificates_expiry (ymd 2024 1 1) (midnight_after 2) licences
                [(ERROR, has_expired_on rating None)] = Inl e)
       \<or> (\<exists>out. check_certificates_expiry (ymd 2024 1 1) (always (ymd 2024 1 1)) licences []
                   = Inr ([] @ out)
              \<and> check_certificates_expiry (ymd 2024 1 1) (midnight_after 2) licences
                   [(ERROR, has_expired_on rating None)]
                   = Inr ([(ERROR, has_expired_on rating None)] @ out)))"
proof -
  have l: "list_all (\<lambda>i. always (ymd 2024 1 1) i = midnight_after 2 i) [0..<length licences]"
    by (simp add: list_all_iff always_def midnight_after_def licences_def)
  then have h: "\<forall>i<length licences. always (ymd 2024 1 1) i = midnight_after 2 i"
    by (simp add: list_all_iff)
  note notices_determined_by_table_and_clock_reads
    [OF h, of "ymd 2024 1 1" "[]" "[(ERROR, has_expired_on rating None)]"]
  with l show ?thesis by blast
qed

text \<open>
  Two runs on the table of the two licences, both with 1 January 2024 as the day read
  before the query. In the second the day has changed when the loop reads the clock, and
  the warning of the first run becomes an error.
\<close>

theorem notices_two_runs_counterexample:
  "check_certificates_expiry (ymd 2024 1 1) (always (ymd 2024 1 1)) licences []
     = Inr [(WARNING, expires_in_days licence_new 0)]
   \<and> check_certificates_expiry (ymd 2024 1 1) (always (ymd 2024 1 2)) licences []
     = Inr [(ERROR, has_expired_on licence_new (Some (ymd 2024 1 1)))]"
  using check_licences check_licences_next_day by (rule conjI)

section \<open>Unique timestamps\<close>

text \<open>
  C10. In every table of log entries that saves and deletes can produce, no two rows
  have the same \<^verbatim>\<open>arrival_time\<close> and no two have the same \<^verbatim>\<open>departure_time\<close>.
\<close>

theorem stored_timestamps_unique:
  "stored db \<Longrightarrow> distinct (map arrival_time db) \<and> distinct (map departure_time db)"
proof (induction rule: stored.induct)
  case empty
  then show ?case by simp
next
  case (save db e db')
  then show ?case by (blast intro: LogEntry_save_unique)
next
  case (delete db k)
  then show ?case by (simp add: LogEntry_delete_def distinct_map_filter)
qed

theorem stored_timestamps_unique_witness:
  "stored flights \<and> distinct (map arrival_time flights)
   \<and> distinct (map departure_time flights)"
proof -
  have s1: "LogEntry_save [] (ex_flight 1 1 1 100 200) = Inr [ex_flight 1 1 1 100 200]"
    by code_simp
  have s2: "LogEntry_save [ex_flight 1 1 1 100 200] (ex_flight 2 1 2 300 400) = Inr flights"
    by code_simp
  have h: "stored flights"
    by (rule stored.save[OF stored.save[OF stored.empty s1] s2])
  from h stored_timestamps_unique[OF h] show ?thesis by (rule conjI)
qed

end

